theory Spec2Isabelle
  imports Complex_Main "HOL-Library.Stream"
begin

section \<open>Values and errors\<close>

text \<open>
  The pricing functions compute on floating-point numbers; they are modelled over the
  reals (\<^typ>\<open>real\<close>), the "exact real arithmetic" the specification speaks of.
  A Python exception is a value: the functions return \<open>error + real\<close>, with \<open>Inl\<close>
  the exception. The reals have no \<open>nan\<close> and no infinities: where numpy would produce
  one without raising (the square root of a negative number, a numpy division by zero,
  the mean of an empty array) the model has the value of HOL's total function, and the
  theorems below are stated for the inputs on which this does not happen.
\<close>

datatype error = ValueError string | ZeroDivisionError | IndexError

text \<open>Python's \<open>a / b\<close> on Python numbers raises on a zero divisor.\<close>

definition py_truediv :: "real \<Rightarrow> real \<Rightarrow> error + real" where
  "py_truediv a b = (if b = 0 then Inl ZeroDivisionError else Inr (a / b))"

section \<open>The standard normal distribution (scipy.stats.norm)\<close>

text \<open>
  \<open>norm.cdf\<close> is library code. It is the standard normal distribution function, here
  given by its everywhere convergent power series
  \<open>\<Phi>(x) = 1/2 + (1/\<surd>(2\<pi>)) \<Sum>n. (-1)^n x^(2n+1) / (n! 2^n (2n+1))\<close>; that this function
  takes the value \<open>1/2\<close> at \<open>0\<close> and has the density \<open>norm_pdf\<close> as its derivative is
  proved below (\<open>norm_cdf_zero\<close>, \<open>norm_cdf_has_derivative_norm_pdf\<close>).
\<close>

definition norm_cdf_coeff :: "nat \<Rightarrow> real" where
  "norm_cdf_coeff n = (- 1) ^ n / (fact n * 2 ^ n * real (2 * n + 1))"

definition norm_cdf :: "real \<Rightarrow> real" where
  "norm_cdf x = 1 / 2 + (\<Sum>n. norm_cdf_coeff n * x ^ (2 * n + 1)) / sqrt (2 * pi)"

definition norm_pdf :: "real \<Rightarrow> real" where
  "norm_pdf x = exp (- (x ^ 2) / 2) / sqrt (2 * pi)"

section \<open>Analytic engine (models/black\_scholes.py)\<close>

definition black_scholes_call :: "real \<Rightarrow> real \<Rightarrow> real \<Rightarrow> real \<Rightarrow> real \<Rightarrow> error + real" where
  "black_scholes_call S K T r sigma =
     (if T \<le> 0 \<or> sigma \<le> 0 \<or> S \<le> 0 \<or> K \<le> 0 then Inr 0
      else case py_truediv S K of
        Inl e \<Rightarrow> Inl e
      | Inr q \<Rightarrow>
          (let d1 = (ln q + (r + 0.5 * sigma ^ 2) * T) / (sigma * sqrt T);
               d2 = d1 - sigma * sqrt T
           in Inr (S * norm_cdf d1 - K * exp (- r * T) * norm_cdf d2)))"

definition black_scholes_put :: "real \<Rightarrow> real \<Rightarrow> real \<Rightarrow> real \<Rightarrow> real \<Rightarrow> error + real" where
  "black_scholes_put S K T r sigma =
     (if T \<le> 0 \<or> sigma \<le> 0 \<or> S \<le> 0 \<or> K \<le> 0 then Inr 0
      else case py_truediv S K of
        Inl e \<Rightarrow> Inl e
      | Inr q \<Rightarrow>
          (let d1 = (ln q + (r + 0.5 * sigma ^ 2) * T) / (sigma * sqrt T);
               d2 = d1 - sigma * sqrt T
           in Inr (K * exp (- r * T) * norm_cdf (- d2) - S * norm_cdf (- d1))))"

text \<open>The quantities \<open>d1\<close> and \<open>d2\<close> as the specification writes them.\<close>

definition spec_d1 :: "real \<Rightarrow> real \<Rightarrow> real \<Rightarrow> real \<Rightarrow> real \<Rightarrow> real" where
  "spec_d1 S K T r sigma = (ln (S / K) + (r + sigma\<^sup>2 / 2) * T) / (sigma * sqrt T)"

definition spec_d2 :: "real \<Rightarrow> real \<Rightarrow> real \<Rightarrow> real \<Rightarrow> real \<Rightarrow> real" where
  "spec_d2 S K T r sigma = spec_d1 S K T r sigma - sigma * sqrt T"

section \<open>Lattice engine (binomial.py)\<close>

text \<open>
  A numpy slice \<open>a[lo:hi]\<close> of a one-dimensional array, for \<open>0 \<le> lo\<close> and \<open>0 \<le> hi\<close>;
  it clips at the end of the array.
\<close>

definition slice :: "nat \<Rightarrow> nat \<Rightarrow> 'a list \<Rightarrow> 'a list" where
  "slice lo hi xs = drop lo (take hi xs)"

text \<open>
  The loop \<open>for i in range(n - 1, -1, -1): st = body(i, st)\<close>: the body runs for
  \<open>i = n - 1\<close> first and for \<open>i = 0\<close> last.
\<close>

fun backward_induction :: "(nat \<Rightarrow> 's \<Rightarrow> 's) \<Rightarrow> nat \<Rightarrow> 's \<Rightarrow> 's" where
  "backward_induction body 0 st = st"
| "backward_induction body (Suc i) st = backward_induction body i (body i st)"

text \<open>
  The state of the same loop after its first \<open>m\<close> iterations, that is after the
  iterations \<open>i = n - 1, \<dots>, n - m\<close>.
\<close>

fun loop_prefix :: "(nat \<Rightarrow> 's \<Rightarrow> 's) \<Rightarrow> nat \<Rightarrow> nat \<Rightarrow> 's \<Rightarrow> 's" where
  "loop_prefix body n 0 st = st"
| "loop_prefix body n (Suc m) st = body (n - Suc m) (loop_prefix body n m st)"

text \<open>
  The loop state is the pair of arrays \<open>(ST, option_values)\<close>. \<open>binomial_call\<close> and
  \<open>binomial_put\<close> have the same body up to the exercise value \<open>intrinsic\<close>, which is
  \<open>ST - K\<close> for the call and \<open>K - ST\<close> for the put. The arithmetic on arrays is
  elementwise; the two slices of \<open>option_values\<close> have the same length on every
  iteration (lemma \<open>lattice_lengths\<close> below), so numpy never broadcasts.
\<close>

type_synonym lattice_state = "real list \<times> real list"

definition lattice_step ::
  "(real \<Rightarrow> real) \<Rightarrow> real \<Rightarrow> real \<Rightarrow> real \<Rightarrow> real \<Rightarrow> string \<Rightarrow> nat \<Rightarrow> lattice_state \<Rightarrow> lattice_state"
where
  "lattice_step intrinsic r dt u p option_type i st =
     (let ST = map (\<lambda>s. s / u) (take (i + 1) (fst st));
          option_values =
            map2 (\<lambda>hi lo. exp (- r * dt) * (p * hi + (1 - p) * lo))
              (slice 1 (i + 2) (snd st)) (slice 0 (i + 1) (snd st))
      in if option_type = ''American''
         then (ST, map2 max option_values (map intrinsic ST))
         else (ST, option_values))"

text \<open>
  The arrays before the loop: \<open>j\<close> runs over \<open>range(steps + 1)\<close>, which is empty for a
  negative \<open>steps\<close>.
\<close>

definition lattice_init :: "(real \<Rightarrow> real) \<Rightarrow> real \<Rightarrow> real \<Rightarrow> real \<Rightarrow> int \<Rightarrow> lattice_state" where
  "lattice_init intrinsic S u d steps =
     (let ST = map (\<lambda>j. S * u ^ j * d ^ nat (steps - int j)) [0..<nat (steps + 1)]
      in (ST, map (\<lambda>s. max (intrinsic s) 0) ST))"

text \<open>
  \<open>steps\<close> is a Python integer. \<open>T / steps\<close> raises for \<open>steps = 0\<close>; for a negative
  \<open>steps\<close> both arrays are empty, the loop does not run and \<open>option_values[0]\<close>
  raises.
\<close>

definition binomial_tree ::
  "(real \<Rightarrow> real) \<Rightarrow> real \<Rightarrow> real \<Rightarrow> real \<Rightarrow> real \<Rightarrow> int \<Rightarrow> string \<Rightarrow> error + real"
where
  "binomial_tree intrinsic S T r sigma steps option_type =
     (case py_truediv T (of_int steps) of
        Inl e \<Rightarrow> Inl e
      | Inr dt \<Rightarrow>
          (let u = exp (sigma * sqrt dt);
               d = 1 / u;
               p = (exp (r * dt) - d) / (u - d);
               st = backward_induction (lattice_step intrinsic r dt u p option_type)
                      (nat steps) (lattice_init intrinsic S u d steps)
           in case snd st of [] \<Rightarrow> Inl IndexError | v # _ \<Rightarrow> Inr v))"

definition binomial_call ::
  "real \<Rightarrow> real \<Rightarrow> real \<Rightarrow> real \<Rightarrow> real \<Rightarrow> int \<Rightarrow> string \<Rightarrow> error + real" where
  "binomial_call S K T r sigma steps option_type =
     binomial_tree (\<lambda>s. s - K) S T r sigma steps option_type"

definition binomial_put ::
  "real \<Rightarrow> real \<Rightarrow> real \<Rightarrow> real \<Rightarrow> real \<Rightarrow> int \<Rightarrow> string \<Rightarrow> error + real" where
  "binomial_put S K T r sigma steps option_type =
     binomial_tree (\<lambda>s. K - s) S T r sigma steps option_type"

text \<open>
  The asset-price array \<open>ST\<close> of \<open>binomial_call\<close> (or \<open>binomial_put\<close>; it does not depend
  on the payoff) at the end of the iteration with loop index \<open>i\<close>, for \<open>steps \<ge> 1\<close>.
\<close>

definition binomial_prices_at ::
  "(real \<Rightarrow> real) \<Rightarrow> real \<Rightarrow> real \<Rightarrow> real \<Rightarrow> real \<Rightarrow> nat \<Rightarrow> string \<Rightarrow> nat \<Rightarrow> real list"
where
  "binomial_prices_at intrinsic S T r sigma n option_type i =
     (let dt = T / real n;
          u = exp (sigma * sqrt dt);
          d = 1 / u;
          p = (exp (r * dt) - d) / (u - d)
      in fst (loop_prefix (lattice_step intrinsic r dt u p option_type) n (n - i)
                (lattice_init intrinsic S u d (int n))))"

text \<open>
  The lattice parameters and the one-shot risk-neutral expectation, as the
  specification writes them.
\<close>

definition spec_up :: "real \<Rightarrow> real \<Rightarrow> nat \<Rightarrow> real" where
  "spec_up T sigma n = exp (sigma * sqrt (T / real n))"

definition spec_down :: "real \<Rightarrow> real \<Rightarrow> nat \<Rightarrow> real" where
  "spec_down T sigma n = 1 / spec_up T sigma n"

definition spec_prob :: "real \<Rightarrow> real \<Rightarrow> real \<Rightarrow> nat \<Rightarrow> real" where
  "spec_prob T r sigma n =
     (exp (r * (T / real n)) - spec_down T sigma n) / (spec_up T sigma n - spec_down T sigma n)"

definition spec_binomial_sum ::
  "(real \<Rightarrow> real) \<Rightarrow> real \<Rightarrow> real \<Rightarrow> real \<Rightarrow> real \<Rightarrow> nat \<Rightarrow> real" where
  "spec_binomial_sum payoff S T r sigma n =
     exp (- (r * T)) *
       (\<Sum>j\<le>n. real (n choose j) * spec_prob T r sigma n ^ j * (1 - spec_prob T r sigma n) ^ (n - j)
               * payoff (S * spec_up T sigma n ^ j * spec_down T sigma n ^ (n - j)))"

section \<open>Simulation engine (models/monte\_carlo.py)\<close>

text \<open>
  \<open>np.random.randn\<close> reads and advances the generator of the process. The state of
  the generator is modelled by the sequence of standard-normal draws it is still going
  to produce; a call that draws \<open>n\<close> numbers returns the first \<open>n\<close> and leaves the rest.
  Every function of the engine takes the generator state and returns it updated.
\<close>

type_synonym rng = "real stream"

definition randn :: "nat \<Rightarrow> rng \<Rightarrow> real list \<times> rng" where
  "randn n g = (stake n g, sdrop n g)"

text \<open>\<open>np.random.randn(n, m)\<close>: \<open>n\<close> rows of \<open>m\<close> draws, filled row by row.\<close>

fun randn2 :: "nat \<Rightarrow> nat \<Rightarrow> rng \<Rightarrow> real list list \<times> rng" where
  "randn2 0 m g = ([], g)"
| "randn2 (Suc n) m g =
     (let (row, g') = randn m g; (rows, g'') = randn2 n m g' in (row # rows, g''))"

definition np_mean :: "real list \<Rightarrow> real" where
  "np_mean xs = sum_list xs / real (length xs)"

text \<open>
  One row of \<open>S_paths\<close>: it starts at \<open>S\<close>, and column \<open>t\<close> is column \<open>t - 1\<close> times
  \<open>exp (drift + diffusion[t - 1])\<close>. The source fills the matrix column by column for
  all rows at once; the rows do not interact.
\<close>

fun asian_path :: "real \<Rightarrow> real \<Rightarrow> real list \<Rightarrow> real list" where
  "asian_path s drift [] = [s]"
| "asian_path s drift (x # xs) = s # asian_path (s * exp (drift + x)) drift xs"

definition negative_dimensions :: error where
  "negative_dimensions = ValueError ''negative dimensions are not allowed''"

definition monte_carlo ::
  "(real \<Rightarrow> real) \<Rightarrow> real \<Rightarrow> real \<Rightarrow> real \<Rightarrow> real \<Rightarrow> int \<Rightarrow> int \<Rightarrow> string \<Rightarrow> rng
     \<Rightarrow> (error + real) \<times> rng"
where
  "monte_carlo intrinsic S T r sigma simulations steps option_type g =
     (if option_type = ''European'' then
        if simulations < 0 then (Inl negative_dimensions, g)
        else
          let (Z, g') = randn (nat simulations) g;
              ST = map (\<lambda>z. S * exp ((r - 0.5 * sigma ^ 2) * T + sigma * sqrt T * z)) Z;
              payoff = map (\<lambda>s. max (intrinsic s) 0) ST
          in (Inr (exp (- r * T) * np_mean payoff), g')
      else if option_type = ''Asian'' then
        case py_truediv T (of_int steps) of
          Inl e \<Rightarrow> (Inl e, g)
        | Inr dt \<Rightarrow>
            if simulations < 0 \<or> steps < 0 then (Inl negative_dimensions, g)
            else
              let (Z, g') = randn2 (nat simulations) (nat steps) g;
                  drift = (r - 0.5 * sigma ^ 2) * dt;
                  diffusion = map (map (\<lambda>z. sigma * sqrt dt * z)) Z;
                  S_paths = map (asian_path S drift) diffusion;
                  S_avg = map np_mean S_paths;
                  payoff = map (\<lambda>a. max (intrinsic a) 0) S_avg
              in (Inr (exp (- r * T) * np_mean payoff), g')
      else (Inl (ValueError (''Unsupported option_type: '' @ option_type)), g))"

definition monte_carlo_call ::
  "real \<Rightarrow> real \<Rightarrow> real \<Rightarrow> real \<Rightarrow> real \<Rightarrow> int \<Rightarrow> int \<Rightarrow> string \<Rightarrow> rng \<Rightarrow> (error + real) \<times> rng"
where
  "monte_carlo_call S K T r sigma simulations steps option_type =
     monte_carlo (\<lambda>s. s - K) S T r sigma simulations steps option_type"

definition monte_carlo_put ::
  "real \<Rightarrow> real \<Rightarrow> real \<Rightarrow> real \<Rightarrow> real \<Rightarrow> int \<Rightarrow> int \<Rightarrow> string \<Rightarrow> rng \<Rightarrow> (error + real) \<times> rng"
where
  "monte_carlo_put S K T r sigma simulations steps option_type =
     monte_carlo (\<lambda>s. K - s) S T r sigma simulations steps option_type"

text \<open>The European estimate as the specification writes it, for a given vector of draws.\<close>

definition spec_mc_european :: "(real \<Rightarrow> real) \<Rightarrow> real \<Rightarrow> real \<Rightarrow> real \<Rightarrow> real \<Rightarrow> real list \<Rightarrow> real" where
  "spec_mc_european payoff S T r sigma Z =
     exp (- (r * T)) *
       ((\<Sum>i<length Z. payoff (S * exp ((r - sigma\<^sup>2 / 2) * T + sigma * sqrt T * Z ! i)))
          / real (length Z))"








section \<open>Properties of the normal distribution function\<close>

lemma norm_cdf_term_bound:
  "norm (norm_cdf_coeff n * x ^ (2 * n + 1)) \<le> \<bar>x\<bar> * (inverse (fact n) * (x\<^sup>2 / 2) ^ n)"
proof -
  have pw: "\<bar>x\<bar> ^ (2 * n) = (x\<^sup>2) ^ n"
    by (simp add: power_mult)
  have "norm (norm_cdf_coeff n * x ^ (2 * n + 1))
      = \<bar>x\<bar> * \<bar>x\<bar> ^ (2 * n) / (fact n * 2 ^ n * real (2 * n + 1))"
    by (simp add: norm_cdf_coeff_def abs_mult power_abs)
  also have "\<dots> = \<bar>x\<bar> * (inverse (fact n) * (x\<^sup>2 / 2) ^ n) / real (2 * n + 1)"
    unfolding pw by (simp add: divide_simps)
  also have "\<dots> \<le> \<bar>x\<bar> * (inverse (fact n) * (x\<^sup>2 / 2) ^ n) / 1"
    by (intro divide_left_mono) simp_all
  finally show ?thesis by simp
qed

lemma norm_cdf_summable: "summable (\<lambda>n. norm_cdf_coeff n * x ^ (2 * n + 1))"
proof (rule summable_comparison_test')
  show "summable (\<lambda>n. \<bar>x\<bar> * (inverse (fact n) * (x\<^sup>2 / 2) ^ n))"
    by (intro summable_mult summable_exp)
  show "\<And>n. 0 \<le> n \<Longrightarrow>
      norm (norm_cdf_coeff n * x ^ (2 * n + 1)) \<le> \<bar>x\<bar> * (inverse (fact n) * (x\<^sup>2 / 2) ^ n)"
    by (rule norm_cdf_term_bound)
qed

lemma norm_cdf_symmetric: "norm_cdf (- x) = 1 - norm_cdf x"
proof -
  have "(\<Sum>n. norm_cdf_coeff n * (- x) ^ (2 * n + 1))
      = (\<Sum>n. - (norm_cdf_coeff n * x ^ (2 * n + 1)))"
    by simp
  also have "\<dots> = - (\<Sum>n. norm_cdf_coeff n * x ^ (2 * n + 1))"
    by (rule suminf_minus [OF norm_cdf_summable])
  finally show ?thesis
    by (simp add: norm_cdf_def)
qed

lemma norm_cdf_zero: "norm_cdf 0 = 1 / 2"
  by (simp add: norm_cdf_def)

text \<open>
  The series is the distribution function: its value at \<open>0\<close> is \<open>1/2\<close> and its derivative
  is the standard normal density.
\<close>

lemma sums_even_embedding:
  fixes g :: "nat \<Rightarrow> real"
  assumes "g sums s"
  shows "(\<lambda>n. if even n then g (n div 2) else 0) sums s"
  using sums_if [OF sums_zero assms] by simp

lemma norm_pdf_series:
  "(\<lambda>k. norm_cdf_coeff k * real (2 * k + 1) * x ^ (2 * k)) sums exp (- (x\<^sup>2) / 2)"
proof -
  have "(\<lambda>k. (- (x\<^sup>2) / 2) ^ k /\<^sub>R fact k) sums exp (- (x\<^sup>2) / 2)"
    by (rule exp_converges)
  moreover have "(- (x\<^sup>2) / 2) ^ k /\<^sub>R fact k = norm_cdf_coeff k * real (2 * k + 1) * x ^ (2 * k)" for k
  proof -
    have "(- (x\<^sup>2) / 2) ^ k = ((- 1) * (x\<^sup>2 / 2)) ^ k"
      by simp
    also have "\<dots> = (- 1) ^ k * (x\<^sup>2 / 2) ^ k"
      by (rule power_mult_distrib)
    also have "\<dots> = (- 1) ^ k * x ^ (2 * k) / 2 ^ k"
      by (simp add: power_divide power_mult)
    finally show ?thesis
      by (simp add: norm_cdf_coeff_def divide_simps)
  qed
  ultimately show ?thesis by simp
qed

lemma norm_cdf_deriv_aux:
  "DERIV (\<lambda>x. \<Sum>n. (if even n then norm_cdf_coeff (n div 2) else 0) * x ^ Suc n) x0
     :> exp (- (x0\<^sup>2) / 2)"
proof -
  let ?F = "\<lambda>n. if even n then norm_cdf_coeff (n div 2) else 0"
  have even2: "2 * (n div 2) = n" if "even n" for n :: nat
    using that by presburger
  have summand: "?F n * real (Suc n) * x ^ n
      = (if even n then norm_cdf_coeff (n div 2) * real (2 * (n div 2) + 1) * x ^ (2 * (n div 2))
         else 0)" for n and x :: real
    using even2 [of n] by simp
  have sums: "(\<lambda>n. ?F n * real (Suc n) * x ^ n) sums exp (- (x\<^sup>2) / 2)" for x :: real
    unfolding summand by (rule sums_even_embedding [OF norm_pdf_series])
  have "DERIV (\<lambda>x. \<Sum>n. ?F n * x ^ Suc n) x0 :> (\<Sum>n. ?F n * real (Suc n) * x0 ^ n)"
  proof (rule DERIV_power_series' [where R = "\<bar>x0\<bar> + 1"])
    show "summable (\<lambda>n. ?F n * real (Suc n) * x ^ n)" for x
      using sums [of x] by (rule sums_summable)
    show "x0 \<in> {- (\<bar>x0\<bar> + 1)<..<\<bar>x0\<bar> + 1}" by auto
    show "0 < \<bar>x0\<bar> + 1" by simp
  qed
  then show ?thesis
    unfolding sums_unique [OF sums [of x0], symmetric] .
qed

lemma norm_cdf_series_even:
  "(\<Sum>n. (if even n then norm_cdf_coeff (n div 2) else 0) * x ^ Suc n)
     = (\<Sum>k. norm_cdf_coeff k * x ^ (2 * k + 1))"
proof -
  have even2: "2 * (n div 2) = n" if "even n" for n :: nat
    using that by presburger
  have summand: "(if even n then norm_cdf_coeff (n div 2) else 0) * x ^ Suc n
      = (if even n then norm_cdf_coeff (n div 2) * x ^ (2 * (n div 2) + 1) else 0)" for n
    using even2 [of n] by simp
  have "(\<lambda>k. norm_cdf_coeff k * x ^ (2 * k + 1)) sums (\<Sum>k. norm_cdf_coeff k * x ^ (2 * k + 1))"
    by (rule summable_sums [OF norm_cdf_summable])
  then have "(\<lambda>n. (if even n then norm_cdf_coeff (n div 2) else 0) * x ^ Suc n)
      sums (\<Sum>k. norm_cdf_coeff k * x ^ (2 * k + 1))"
    unfolding summand by (rule sums_even_embedding)
  then show ?thesis by (rule sums_unique [symmetric])
qed

lemma norm_cdf_has_derivative_norm_pdf: "DERIV norm_cdf x :> norm_pdf x"
proof -
  have "DERIV (\<lambda>x. \<Sum>k. norm_cdf_coeff k * x ^ (2 * k + 1)) x :> exp (- (x\<^sup>2) / 2)"
    using norm_cdf_deriv_aux [of x] unfolding norm_cdf_series_even .
  then have "DERIV (\<lambda>x. 1 / 2 + (\<Sum>k. norm_cdf_coeff k * x ^ (2 * k + 1)) / sqrt (2 * pi)) x
      :> 0 + exp (- (x\<^sup>2) / 2) / sqrt (2 * pi)"
    by (intro DERIV_add DERIV_const DERIV_cdivide)
  then show ?thesis
    by (simp add: norm_cdf_def [abs_def] norm_pdf_def)
qed

section \<open>Analytic engine: closed form, parity and the degenerate guard\<close>

lemma black_scholes_call_valid:
  assumes "0 < S" "0 < K" "0 < T" "0 < sigma"
  shows "black_scholes_call S K T r sigma =
         Inr (S * norm_cdf (spec_d1 S K T r sigma)
              - K * exp (- (r * T)) * norm_cdf (spec_d2 S K T r sigma))"
  using assms
  by (simp add: black_scholes_call_def py_truediv_def spec_d1_def spec_d2_def Let_def)

lemma black_scholes_put_valid:
  assumes "0 < S" "0 < K" "0 < T" "0 < sigma"
  shows "black_scholes_put S K T r sigma =
         Inr (K * exp (- (r * T)) * norm_cdf (- spec_d2 S K T r sigma)
              - S * norm_cdf (- spec_d1 S K T r sigma))"
  using assms
  by (simp add: black_scholes_put_def py_truediv_def spec_d1_def spec_d2_def Let_def)

text \<open>
  Claim C2. For \<open>S > 0\<close>, \<open>K > 0\<close>, \<open>T > 0\<close>, \<open>sigma > 0\<close> and any real \<open>r\<close>,
  \<open>black_scholes_call\<close> returns \<open>S \<Phi>(d1) - K e^(-rT) \<Phi>(d2)\<close> and \<open>black_scholes_put\<close>
  returns \<open>K e^(-rT) \<Phi>(-d2) - S \<Phi>(-d1)\<close>, with \<open>d1\<close> and \<open>d2\<close> as the specification
  defines them and \<open>\<Phi>\<close> the standard normal distribution function.
\<close>

theorem black_scholes_closed_form:
  assumes "0 < S" "0 < K" "0 < T" "0 < sigma"
  shows "black_scholes_call S K T r sigma =
           Inr (S * norm_cdf (spec_d1 S K T r sigma)
                - K * exp (- (r * T)) * norm_cdf (spec_d2 S K T r sigma))
       \<and> black_scholes_put S K T r sigma =
           Inr (K * exp (- (r * T)) * norm_cdf (- spec_d2 S K T r sigma)
                - S * norm_cdf (- spec_d1 S K T r sigma))"
  using black_scholes_call_valid [OF assms] black_scholes_put_valid [OF assms] by simp

theorem black_scholes_closed_form_witness:
  "(0::real) < 100 \<and> (0::real) < 1 \<and> (0::real) < 1 / 5
   \<and> black_scholes_call 100 100 1 (1 / 50) (1 / 5) =
           Inr (100 * norm_cdf (spec_d1 100 100 1 (1 / 50) (1 / 5))
                - 100 * exp (- (1 / 50 * 1)) * norm_cdf (spec_d2 100 100 1 (1 / 50) (1 / 5)))
   \<and> black_scholes_put 100 100 1 (1 / 50) (1 / 5) =
           Inr (100 * exp (- (1 / 50 * 1)) * norm_cdf (- spec_d2 100 100 1 (1 / 50) (1 / 5))
                - 100 * norm_cdf (- spec_d1 100 100 1 (1 / 50) (1 / 5)))"
  using black_scholes_closed_form [of 100 100 1 "1 / 5" "1 / 50"] by simp

text \<open>
  Claim C3 (put-call parity). For \<open>S > 0\<close>, \<open>K > 0\<close>, \<open>T > 0\<close>, \<open>sigma > 0\<close> and any real
  \<open>r\<close>, both \<open>black_scholes_call\<close> and \<open>black_scholes_put\<close> return a price, and the call
  price minus the put price is exactly \<open>S - K e^(-rT)\<close>.
\<close>

theorem black_scholes_put_call_parity:
  assumes "0 < S" "0 < K" "0 < T" "0 < sigma"
  shows "\<exists>c p. black_scholes_call S K T r sigma = Inr c
             \<and> black_scholes_put S K T r sigma = Inr p
             \<and> c - p = S - K * exp (- (r * T))"
proof (intro exI conjI)
  show "black_scholes_call S K T r sigma =
         Inr (S * norm_cdf (spec_d1 S K T r sigma)
              - K * exp (- (r * T)) * norm_cdf (spec_d2 S K T r sigma))"
    by (rule black_scholes_call_valid [OF assms])
  show "black_scholes_put S K T r sigma =
         Inr (K * exp (- (r * T)) * norm_cdf (- spec_d2 S K T r sigma)
              - S * norm_cdf (- spec_d1 S K T r sigma))"
    by (rule black_scholes_put_valid [OF assms])
  show "(S * norm_cdf (spec_d1 S K T r sigma)
              - K * exp (- (r * T)) * norm_cdf (spec_d2 S K T r sigma))
      - (K * exp (- (r * T)) * norm_cdf (- spec_d2 S K T r sigma)
              - S * norm_cdf (- spec_d1 S K T r sigma))
      = S - K * exp (- (r * T))"
    by (simp add: norm_cdf_symmetric algebra_simps)
qed

theorem black_scholes_put_call_parity_witness:
  "(0::real) < 100 \<and> (0::real) < 1 \<and> (0::real) < 1 / 5
   \<and> (\<exists>c p. black_scholes_call 100 100 1 (1 / 50) (1 / 5) = Inr c
             \<and> black_scholes_put 100 100 1 (1 / 50) (1 / 5) = Inr p
             \<and> c - p = 100 - 100 * exp (- (1 / 50 * 1)))"
  using black_scholes_put_call_parity [of 100 100 1 "1 / 5" "1 / 50"] by simp

text \<open>
  Claim C4 (degenerate guard). Whenever \<open>T \<le> 0\<close> or \<open>sigma \<le> 0\<close> or \<open>S \<le> 0\<close> or
  \<open>K \<le> 0\<close>, both \<open>black_scholes_call\<close> and \<open>black_scholes_put\<close> return the price \<open>0\<close>;
  in particular the division \<open>S / K\<close> is never reached with \<open>K = 0\<close> and no exception
  is raised.
\<close>

theorem black_scholes_degenerate:
  assumes "T \<le> 0 \<or> sigma \<le> 0 \<or> S \<le> 0 \<or> K \<le> 0"
  shows "black_scholes_call S K T r sigma = Inr 0 \<and> black_scholes_put S K T r sigma = Inr 0"
  using assms by (simp add: black_scholes_call_def black_scholes_put_def)

theorem black_scholes_degenerate_witness:
  "((0::real) \<le> 0 \<or> (1 / 5 :: real) \<le> 0 \<or> (100::real) \<le> 0 \<or> (0::real) \<le> 0)
   \<and> black_scholes_call 100 0 0 (1 / 50) (1 / 5) = Inr 0
   \<and> black_scholes_put 100 0 0 (1 / 50) (1 / 5) = Inr 0"
  using black_scholes_degenerate [of 0 "1 / 5" 100 0 "1 / 50"] by simp

section \<open>Lattice engine: the loop and its arrays\<close>

lemma lattice_init_int:
  "lattice_init g S u d (int n) =
     (map (\<lambda>j. S * u ^ j * d ^ (n - j)) [0..<n + 1],
      map (\<lambda>j. max (g (S * u ^ j * d ^ (n - j))) 0) [0..<n + 1])"
proof -
  have "nat (int n - int j) = n - j" for j by simp
  moreover have "nat (int n + 1) = n + 1" by simp
  ultimately show ?thesis
    by (simp add: lattice_init_def Let_def comp_def del: upt_Suc)
qed

lemma backward_induction_loop_prefix_aux:
  "k \<le> n \<Longrightarrow> backward_induction body k (loop_prefix body n (n - k) st) = loop_prefix body n n st"
proof (induction k)
  case 0
  then show ?case by simp
next
  case (Suc k)
  then have eq: "n - k = Suc (n - Suc k)" by simp
  have "body k (loop_prefix body n (n - Suc k) st) = loop_prefix body n (n - k) st"
    unfolding eq using Suc.prems by simp
  then show ?case using Suc by simp
qed

lemma backward_induction_loop_prefix:
  "backward_induction body n st = loop_prefix body n n st"
  using backward_induction_loop_prefix_aux [of n n body st] by simp

lemma lattice_step_fst:
  "fst (lattice_step g r dt u p ot i st) = map (\<lambda>s. s / u) (take (i + 1) (fst st))"
  by (simp add: lattice_step_def Let_def)

lemma lattice_step_length:
  assumes "length (fst st) = i + 2" "length (snd st) = i + 2"
  shows "length (fst (lattice_step g r dt u p ot i st)) = i + 1
       \<and> length (snd (lattice_step g r dt u p ot i st)) = i + 1"
  using assms by (simp add: lattice_step_def Let_def slice_def)

lemma lattice_init_length:
  "length (fst (lattice_init g S u d (int n))) = n + 1 \<and> length (snd (lattice_init g S u d (int n))) = n + 1"
  by (simp add: lattice_init_int)

lemma lattice_lengths:
  "m \<le> n \<Longrightarrow>
   length (fst (loop_prefix (lattice_step g r dt u p ot) n m (lattice_init g S u d (int n)))) = n - m + 1
 \<and> length (snd (loop_prefix (lattice_step g r dt u p ot) n m (lattice_init g S u d (int n)))) = n - m + 1"
proof (induction m)
  case 0
  then show ?case by (simp add: lattice_init_length)
next
  case (Suc m)
  then have "n - m + 1 = (n - Suc m) + 2" by simp
  with Suc show ?case
    using lattice_step_length [of "loop_prefix (lattice_step g r dt u p ot) n m (lattice_init g S u d (int n))" "n - Suc m"]
    by simp
qed

lemma lattice_prices_nth:
  "m \<le> n \<Longrightarrow> k \<le> n - m \<Longrightarrow>
   fst (loop_prefix (lattice_step g r dt u p ot) n m (lattice_init g S u d (int n))) ! k
     = S * u ^ k * d ^ (n - k) / u ^ m"
proof (induction m)
  case 0
  then show ?case by (simp add: lattice_init_int nth_append del: upt_Suc)
next
  case (Suc m)
  let ?st = "loop_prefix (lattice_step g r dt u p ot) n m (lattice_init g S u d (int n))"
  have len: "length (fst ?st) = n - m + 1" using lattice_lengths [of m n] Suc.prems by simp
  have "fst (lattice_step g r dt u p ot (n - Suc m) ?st) ! k = fst ?st ! k / u"
    using Suc.prems len by (simp add: lattice_step_fst)
  then show ?case using Suc by simp
qed

lemma lattice_step_snd_nth:
  assumes "length (fst st) = i + 2" "length (snd st) = i + 2" "k \<le> i"
  shows "snd (lattice_step g r dt u p ot i st) ! k =
           (if ot = ''American''
            then max (exp (- r * dt) * (p * snd st ! (k + 1) + (1 - p) * snd st ! k))
                     (g (fst st ! k / u))
            else exp (- r * dt) * (p * snd st ! (k + 1) + (1 - p) * snd st ! k))"
  using assms by (simp add: lattice_step_def Let_def slice_def)

lemma binomial_tree_value:
  assumes "0 < steps"
  shows "binomial_tree g S T r sigma steps ot =
     Inr (snd (loop_prefix
            (lattice_step g r (T / real (nat steps)) (spec_up T sigma (nat steps))
               (spec_prob T r sigma (nat steps)) ot)
            (nat steps) (nat steps)
            (lattice_init g S (spec_up T sigma (nat steps)) (spec_down T sigma (nat steps)) (int (nat steps)))) ! 0)"
proof -
  let ?n = "nat steps"
  let ?st = "loop_prefix
            (lattice_step g r (T / real ?n) (spec_up T sigma ?n) (spec_prob T r sigma ?n) ot)
            ?n ?n (lattice_init g S (spec_up T sigma ?n) (spec_down T sigma ?n) (int ?n))"
  have "length (snd ?st) = 1"
    using lattice_lengths [of ?n ?n] by simp
  then obtain v where v: "snd ?st = [v]"
    by (cases "snd ?st") simp_all
  show ?thesis
    using assms v
    by (simp add: binomial_tree_def py_truediv_def Let_def backward_induction_loop_prefix
        spec_up_def spec_down_def spec_prob_def)
qed

text \<open>The two ways in which the lattice engine raises.\<close>

lemma binomial_tree_zero_steps:
  "binomial_tree g S T r sigma 0 ot = Inl ZeroDivisionError"
  by (simp add: binomial_tree_def py_truediv_def)

lemma binomial_tree_negative_steps:
  assumes "steps < 0"
  shows "binomial_tree g S T r sigma steps ot = Inl IndexError"
proof -
  have "nat steps = 0" "nat (steps + 1) = 0" using assms by simp_all
  then show ?thesis
    using assms by (simp add: binomial_tree_def py_truediv_def Let_def lattice_init_def)
qed

lemma quotient_in_unit_interval:
  fixes e d u :: real
  assumes "d \<le> e" "e \<le> u" "d < u"
  shows "0 \<le> (e - d) / (u - d) \<and> (e - d) / (u - d) \<le> 1"
proof
  show "0 \<le> (e - d) / (u - d)"
    using assms by (intro divide_nonneg_pos) simp_all
  have "(e - d) / (u - d) \<le> (u - d) / (u - d)"
    using assms by (intro divide_right_mono) simp_all
  then show "(e - d) / (u - d) \<le> 1"
    using assms by simp
qed

lemma risk_neutral_prob_range:
  fixes r sigma dt :: real
  assumes "0 < sigma" "0 < dt" "\<bar>r\<bar> * sqrt dt \<le> sigma"
  defines "u \<equiv> exp (sigma * sqrt dt)"
  defines "p \<equiv> (exp (r * dt) - 1 / u) / (u - 1 / u)"
  shows "0 \<le> p \<and> p \<le> 1"
proof -
  have sq: "0 < sqrt dt" using assms by simp
  have dt: "dt = sqrt dt * sqrt dt" using assms by simp
  have "\<bar>r * dt\<bar> = (\<bar>r\<bar> * sqrt dt) * sqrt dt"
    using sq by (subst dt) (simp add: abs_mult)
  also have "\<dots> \<le> sigma * sqrt dt"
    using assms(3) sq by (intro mult_right_mono) simp_all
  finally have bnd: "\<bar>r * dt\<bar> \<le> sigma * sqrt dt" .
  have d: "1 / u = exp (- (sigma * sqrt dt))"
    by (simp add: u_def exp_minus divide_simps)
  have lo: "1 / u \<le> exp (r * dt)" unfolding d using bnd by simp
  have hi: "exp (r * dt) \<le> u" unfolding u_def using bnd by simp
  have "0 < sigma * sqrt dt" using assms sq by simp
  then have "1 < u" unfolding u_def by simp
  then have "1 / u < 1" by simp
  with \<open>1 < u\<close> have pos: "1 / u < u" by linarith
  show ?thesis unfolding p_def by (rule quotient_in_unit_interval [OF lo hi pos])
qed

lemma lattice_prices_indep:
  "fst (loop_prefix (lattice_step g r dt u p ot) n m st)
   = fst (loop_prefix (lattice_step g r dt u p ot') n m st)"
  by (induction m) (simp_all add: lattice_step_fst)

lemma american_ge_european_nth:
  assumes p: "0 \<le> p" "p \<le> 1"
  shows "m \<le> n \<Longrightarrow> k \<le> n - m \<Longrightarrow>
     snd (loop_prefix (lattice_step g r dt u p ''European'') n m (lattice_init g S u d (int n))) ! k
   \<le> snd (loop_prefix (lattice_step g r dt u p ''American'') n m (lattice_init g S u d (int n))) ! k"
proof (induction m arbitrary: k)
  case 0
  then show ?case by simp
next
  case (Suc m)
  let ?E = "loop_prefix (lattice_step g r dt u p ''European'') n m (lattice_init g S u d (int n))"
  let ?A = "loop_prefix (lattice_step g r dt u p ''American'') n m (lattice_init g S u d (int n))"
  let ?i = "n - Suc m"
  have m: "m \<le> n" and i: "n - m + 1 = ?i + 2" and k: "k \<le> ?i" "k \<le> n - m" "k + 1 \<le> n - m"
    using Suc.prems by simp_all
  have lenE: "length (fst ?E) = ?i + 2" "length (snd ?E) = ?i + 2"
    using lattice_lengths [OF m, of g r dt u p "''European''" S d] i by simp_all
  have lenA: "length (fst ?A) = ?i + 2" "length (snd ?A) = ?i + 2"
    using lattice_lengths [OF m, of g r dt u p "''American''" S d] i by simp_all
  have lo: "snd ?E ! k \<le> snd ?A ! k" using Suc.IH [OF m k(2)] .
  have hi: "snd ?E ! (k + 1) \<le> snd ?A ! (k + 1)" using Suc.IH [OF m k(3)] .
  have "p * snd ?E ! (k + 1) + (1 - p) * snd ?E ! k \<le> p * snd ?A ! (k + 1) + (1 - p) * snd ?A ! k"
    using p lo hi by (intro add_mono mult_left_mono) simp_all
  then have cont: "exp (- r * dt) * (p * snd ?E ! (k + 1) + (1 - p) * snd ?E ! k)
     \<le> exp (- r * dt) * (p * snd ?A ! (k + 1) + (1 - p) * snd ?A ! k)"
    by (intro mult_left_mono) simp_all
  have E: "snd (loop_prefix (lattice_step g r dt u p ''European'') n (Suc m) (lattice_init g S u d (int n))) ! k
      = exp (- r * dt) * (p * snd ?E ! (k + 1) + (1 - p) * snd ?E ! k)"
    using lattice_step_snd_nth [OF lenE k(1), of g r dt u p "''European''"] by simp
  have A: "snd (loop_prefix (lattice_step g r dt u p ''American'') n (Suc m) (lattice_init g S u d (int n))) ! k
      = max (exp (- r * dt) * (p * snd ?A ! (k + 1) + (1 - p) * snd ?A ! k)) (g (fst ?A ! k / u))"
    using lattice_step_snd_nth [OF lenA k(1), of g r dt u p "''American''"] by simp
  show ?case unfolding E A by (rule max.coboundedI1 [OF cont])
qed

lemma binomial_expectation_step:
  fixes p q :: real and a :: "nat \<Rightarrow> real"
  shows "(\<Sum>j\<le>Suc m. real (Suc m choose j) * p ^ j * q ^ (Suc m - j) * a (k + j))
       = p * (\<Sum>j\<le>m. real (m choose j) * p ^ j * q ^ (m - j) * a (Suc k + j))
       + q * (\<Sum>j\<le>m. real (m choose j) * p ^ j * q ^ (m - j) * a (k + j))"
proof -
  let ?up = "\<Sum>j\<le>m. real (m choose j) * p ^ Suc j * q ^ (m - j) * a (k + Suc j)"
  let ?dn = "\<Sum>j<m. real (m choose Suc j) * p ^ Suc j * q ^ (m - j) * a (k + Suc j)"
  have "(\<Sum>j\<le>Suc m. real (Suc m choose j) * p ^ j * q ^ (Suc m - j) * a (k + j))
      = q ^ Suc m * a k
        + (\<Sum>j\<le>m. real (Suc m choose Suc j) * p ^ Suc j * q ^ (m - j) * a (k + Suc j))"
    by (subst sum.atMost_Suc_shift) simp
  also have "(\<Sum>j\<le>m. real (Suc m choose Suc j) * p ^ Suc j * q ^ (m - j) * a (k + Suc j))
      = ?up + (\<Sum>j\<le>m. real (m choose Suc j) * p ^ Suc j * q ^ (m - j) * a (k + Suc j))"
    by (simp add: algebra_simps sum.distrib)
  also have "(\<Sum>j\<le>m. real (m choose Suc j) * p ^ Suc j * q ^ (m - j) * a (k + Suc j)) = ?dn"
    by (simp add: lessThan_Suc_atMost [symmetric])
  finally have lhs: "(\<Sum>j\<le>Suc m. real (Suc m choose j) * p ^ j * q ^ (Suc m - j) * a (k + j))
      = q ^ Suc m * a k + (?up + ?dn)" .
  have up: "p * (\<Sum>j\<le>m. real (m choose j) * p ^ j * q ^ (m - j) * a (Suc k + j)) = ?up"
    by (simp add: sum_distrib_left algebra_simps)
  have "q * (\<Sum>j\<le>m. real (m choose j) * p ^ j * q ^ (m - j) * a (k + j))
      = (\<Sum>j\<le>m. real (m choose j) * p ^ j * q ^ Suc (m - j) * a (k + j))"
    by (simp add: sum_distrib_left algebra_simps)
  also have "\<dots> = q ^ Suc m * a k
      + (\<Sum>j<m. real (m choose Suc j) * p ^ Suc j * q ^ Suc (m - Suc j) * a (k + Suc j))"
    by (subst sum.atMost_shift) simp
  also have "(\<Sum>j<m. real (m choose Suc j) * p ^ Suc j * q ^ Suc (m - Suc j) * a (k + Suc j)) = ?dn"
    by (intro sum.cong refl) (simp add: Suc_diff_Suc)
  finally have dn: "q * (\<Sum>j\<le>m. real (m choose j) * p ^ j * q ^ (m - j) * a (k + j))
      = q ^ Suc m * a k + ?dn" .
  show ?thesis unfolding lhs up dn by simp
qed

lemma european_values_nth:
  assumes ot: "ot \<noteq> ''American''"
  shows "m \<le> n \<Longrightarrow> k \<le> n - m \<Longrightarrow>
     snd (loop_prefix (lattice_step g r dt u p ot) n m (lattice_init g S u d (int n))) ! k
   = exp (- r * dt) ^ m *
       (\<Sum>j\<le>m. real (m choose j) * p ^ j * (1 - p) ^ (m - j)
                 * max (g (S * u ^ (k + j) * d ^ (n - (k + j)))) 0)"
proof (induction m arbitrary: k)
  case 0
  then show ?case by (simp add: lattice_init_int nth_append del: upt_Suc)
next
  case (Suc m)
  let ?V = "loop_prefix (lattice_step g r dt u p ot) n m (lattice_init g S u d (int n))"
  let ?i = "n - Suc m"
  let ?a = "\<lambda>j. max (g (S * u ^ j * d ^ (n - j))) 0"
  have m: "m \<le> n" and i: "n - m + 1 = ?i + 2" and k: "k \<le> ?i" "k \<le> n - m" "Suc k \<le> n - m"
    using Suc.prems by simp_all
  have len: "length (fst ?V) = ?i + 2" "length (snd ?V) = ?i + 2"
    using lattice_lengths [OF m, of g r dt u p ot S d] i by simp_all
  have lo: "snd ?V ! k = exp (- r * dt) ^ m *
       (\<Sum>j\<le>m. real (m choose j) * p ^ j * (1 - p) ^ (m - j) * ?a (k + j))"
    using Suc.IH [OF m k(2)] .
  have hi: "snd ?V ! (k + 1) = exp (- r * dt) ^ m *
       (\<Sum>j\<le>m. real (m choose j) * p ^ j * (1 - p) ^ (m - j) * ?a (Suc k + j))"
    using Suc.IH [OF m k(3)] by simp
  have "snd (loop_prefix (lattice_step g r dt u p ot) n (Suc m) (lattice_init g S u d (int n))) ! k
      = exp (- r * dt) * (p * snd ?V ! (k + 1) + (1 - p) * snd ?V ! k)"
    using lattice_step_snd_nth [OF len k(1), of g r dt u p ot] ot by simp
  also have "\<dots> = exp (- r * dt) ^ Suc m *
      (p * (\<Sum>j\<le>m. real (m choose j) * p ^ j * (1 - p) ^ (m - j) * ?a (Suc k + j))
       + (1 - p) * (\<Sum>j\<le>m. real (m choose j) * p ^ j * (1 - p) ^ (m - j) * ?a (k + j)))"
    unfolding lo hi by (simp add: algebra_simps)
  also have "\<dots> = exp (- r * dt) ^ Suc m *
      (\<Sum>j\<le>Suc m. real (Suc m choose j) * p ^ j * (1 - p) ^ (Suc m - j) * ?a (k + j))"
    unfolding binomial_expectation_step [of m p "1 - p" ?a k] ..
  finally show ?case .
qed

lemma discount_power:
  fixes r T :: real
  assumes "0 < n"
  shows "exp (- r * (T / real n)) ^ n = exp (- (r * T))"
proof -
  have "exp (- r * (T / real n)) ^ n = exp (real n * (- r * (T / real n)))"
    by (rule exp_of_nat_mult [symmetric])
  also have "real n * (- r * (T / real n)) = - (r * T)"
    using assms by simp
  finally show ?thesis .
qed

lemma binomial_tree_european:
  assumes "0 < steps" "ot \<noteq> ''American''"
  shows "binomial_tree g S T r sigma steps ot =
           Inr (spec_binomial_sum (\<lambda>s. max (g s) 0) S T r sigma (nat steps))"
proof -
  have n: "0 < nat steps" "nat steps \<le> nat steps" "0 \<le> nat steps - nat steps"
    using assms by simp_all
  show ?thesis
    unfolding binomial_tree_value [OF assms(1)]
      european_values_nth [OF assms(2) n(2) n(3)]
      discount_power [OF n(1)] spec_binomial_sum_def
    by simp
qed

section \<open>Lattice engine: the asset-price array (claim C1)\<close>

lemma divide_by_gt_one:
  fixes x e :: real
  assumes "0 < x" "1 < e"
  shows "x / e < x"
proof -
  have "x / e < x / 1"
    using assms by (intro divide_strict_left_mono) simp_all
  then show ?thesis by simp
qed

lemma binomial_prices_at_nth:
  assumes "i \<le> n" "k \<le> i"
  shows "binomial_prices_at g S T r sigma n ot i ! k
       = S * spec_up T sigma n ^ k * spec_down T sigma n ^ (n - k) / spec_up T sigma n ^ (n - i)"
  using assms lattice_prices_nth [of "n - i" n k]
  by (simp add: binomial_prices_at_def Let_def spec_up_def spec_down_def)

text \<open>
  Claim C1 says that after the iteration with index \<open>i\<close> entry \<open>k\<close> of the asset-price
  array is the node price \<open>S u^k d^(i - k)\<close>. The loop divides the surviving entries by
  \<open>u\<close>, where the node one step earlier is reached by dividing by \<open>d\<close>; by
  \<open>binomial_prices_at_nth\<close> the entry is \<open>S u^k d^(steps - k) / u^(steps - i)\<close>,
  that is the node price times \<open>d^(2 (steps - i))\<close>. At \<open>S = K = 100\<close>, \<open>T = 1\<close>,
  \<open>r = 0.02\<close>, \<open>sigma = 0.2\<close>, \<open>steps = 1\<close> the array of the last iteration holds
  \<open>100 e^(-0.4)\<close>, not the price \<open>100\<close> of the root node.
\<close>

theorem binomial_prices_at_root_wrong:
  "binomial_prices_at (\<lambda>s. 100 - s) 100 1 (1 / 50) (1 / 5) 1 ''American'' 0
     = [100 / exp (1 / 5) / exp (1 / 5)]
   \<and> 100 / exp (1 / 5) / exp (1 / 5)
     < 100 * spec_up 1 (1 / 5) 1 ^ 0 * spec_down 1 (1 / 5) 1 ^ (0 - 0)"
proof
  show "binomial_prices_at (\<lambda>s. 100 - s) 100 1 (1 / 50) (1 / 5) 1 ''American'' 0
     = [100 / exp (1 / 5) / exp (1 / 5)]"
    by (simp add: binomial_prices_at_def Let_def lattice_init_def lattice_step_def slice_def
        exp_minus upt_rec)
  have e: "(1::real) < exp (1 / 5)" by simp
  have a: "(100::real) / exp (1 / 5) < 100"
    by (rule divide_by_gt_one [OF _ e]) simp
  have "(100::real) / exp (1 / 5) / exp (1 / 5) < 100 / exp (1 / 5)"
    by (rule divide_by_gt_one [OF _ e]) simp
  then have "(100::real) / exp (1 / 5) / exp (1 / 5) < 100" using a by (rule less_trans)
  then show "100 / exp (1 / 5) / exp (1 / 5)
     < 100 * spec_up 1 (1 / 5) 1 ^ 0 * spec_down 1 (1 / 5) 1 ^ (0 - 0)"
    by simp
qed

text \<open>
  The effect on a price: with one step, \<open>u = 2\<close> and a zero rate the American put at the
  money is exercised against the asset price \<open>25\<close> instead of \<open>100\<close>.
\<close>

lemma binomial_put_american_one_step:
  "binomial_put 100 100 1 0 (ln 2) 1 ''American'' = Inr 75"
  "binomial_put 100 100 1 0 (ln 2) 1 ''European'' = Inr (100 / 3)"
  by (simp_all add: binomial_put_def binomial_tree_def py_truediv_def Let_def lattice_init_def
      lattice_step_def slice_def exp_minus upt_rec)

section \<open>Lattice engine: exercise styles (claims C7, C8 and C10)\<close>

text \<open>
  Claim C10. For \<open>S > 0\<close>, \<open>K > 0\<close>, \<open>T > 0\<close>, \<open>sigma > 0\<close>, any real \<open>r\<close>, \<open>steps \<ge> 1\<close> and
  every \<open>option_type\<close> other than \<open>"American"\<close>, \<open>binomial_call\<close> returns the discounted
  binomial expectation \<open>e^(-rT) \<Sum>j\<le>steps. C(steps, j) p^j (1 - p)^(steps - j)
  max (S u^j d^(steps - j) - K) 0\<close>, and \<open>binomial_put\<close> the same with the put payoff.
\<close>

theorem binomial_european_closed_sum:
  assumes "0 < S" "0 < K" "0 < T" "0 < sigma" "1 \<le> steps" "option_type \<noteq> ''American''"
  shows "binomial_call S K T r sigma steps option_type
           = Inr (spec_binomial_sum (\<lambda>s. max (s - K) 0) S T r sigma (nat steps))
       \<and> binomial_put S K T r sigma steps option_type
           = Inr (spec_binomial_sum (\<lambda>s. max (K - s) 0) S T r sigma (nat steps))"
proof -
  have steps: "0 < steps" using assms(5) by simp
  show ?thesis
    unfolding binomial_call_def binomial_put_def
    using binomial_tree_european [OF steps assms(6)] by simp
qed

theorem binomial_european_closed_sum_witness:
  "(0::real) < 100 \<and> (0::real) < 1 \<and> (0::real) < 1 / 5 \<and> (1::int) \<le> 100
   \<and> ''Bermudan'' \<noteq> ''American''
   \<and> binomial_call 100 100 1 (1 / 50) (1 / 5) 100 ''Bermudan''
           = Inr (spec_binomial_sum (\<lambda>s. max (s - 100) 0) 100 1 (1 / 50) (1 / 5) (nat 100))
   \<and> binomial_put 100 100 1 (1 / 50) (1 / 5) 100 ''Bermudan''
           = Inr (spec_binomial_sum (\<lambda>s. max (100 - s) 0) 100 1 (1 / 50) (1 / 5) (nat 100))"
  using binomial_european_closed_sum [of 100 100 1 "1 / 5" 100 "''Bermudan''" "1 / 50"]
  by simp




lemma binomial_tree_american_ge_european:
  assumes "0 < T" "0 < sigma" "1 \<le> steps" "\<bar>r\<bar> * sqrt (T / real_of_int steps) \<le> sigma"
  shows "\<exists>a e. binomial_tree g S T r sigma steps ''American'' = Inr a
             \<and> binomial_tree g S T r sigma steps ''European'' = Inr e \<and> e \<le> a"
proof -
  let ?n = "nat steps"
  have steps: "0 < steps" "real_of_int steps = real ?n" "0 < real ?n"
    using assms(3) by simp_all
  have dt: "0 < T / real ?n" using assms(1) steps(3) by simp
  have bound: "\<bar>r\<bar> * sqrt (T / real ?n) \<le> sigma"
    using assms(4) unfolding steps(2) .
  have p: "0 \<le> spec_prob T r sigma ?n \<and> spec_prob T r sigma ?n \<le> 1"
    unfolding spec_prob_def spec_down_def spec_up_def
    by (rule risk_neutral_prob_range [OF assms(2) dt bound])
  have n: "?n \<le> ?n" "0 \<le> ?n - ?n" by simp_all
  show ?thesis
    unfolding binomial_tree_value [OF steps(1)]
    using american_ge_european_nth [OF conjunct1 [OF p] conjunct2 [OF p] n]
    by blast
qed

text \<open>
  Claim C8 says that the American price is at least the European price for every valid
  parameter set and any real rate. It fails when the rate is so large in absolute value
  that the risk-neutral probability \<open>p\<close> leaves \<open>[0, 1]\<close>: with \<open>S = 1\<close>, \<open>K = 3/2\<close>,
  \<open>T = 2\<close>, \<open>r = - ln 4\<close>, \<open>sigma = ln 2\<close> and two steps, \<open>u = 2\<close>, \<open>d = 1/2\<close> and
  \<open>p = - 1/6\<close>; the American call costs \<open>2/3\<close> and the European call \<open>10/9\<close>.
\<close>

theorem binomial_american_below_european:
  "(0::real) < ln 2
   \<and> binomial_call 1 (3 / 2) 2 (- ln 4) (ln 2) 2 ''American'' = Inr (2 / 3)
   \<and> binomial_call 1 (3 / 2) 2 (- ln 4) (ln 2) 2 ''European'' = Inr (10 / 9)"
  by (simp add: binomial_call_def binomial_tree_def py_truediv_def Let_def lattice_init_def
      lattice_step_def slice_def numeral_2_eq_2 exp_minus upt_rec)

text \<open>
  Claim C8 as amended. For \<open>S > 0\<close>, \<open>K > 0\<close>, \<open>T > 0\<close>, \<open>sigma > 0\<close>, \<open>steps \<ge> 1\<close> and a
  rate with \<open>|r| \<surd>(T / steps) \<le> sigma\<close> (so that \<open>0 \<le> p \<le> 1\<close>), \<open>binomial_call\<close> and
  \<open>binomial_put\<close> return a price for both styles, and the American price is at least
  the European price.
\<close>

theorem binomial_american_ge_european:
  assumes "0 < S" "0 < K" "0 < T" "0 < sigma" "1 \<le> steps"
    "\<bar>r\<bar> * sqrt (T / real_of_int steps) \<le> sigma"
  shows "(\<exists>a e. binomial_call S K T r sigma steps ''American'' = Inr a
              \<and> binomial_call S K T r sigma steps ''European'' = Inr e \<and> e \<le> a)
       \<and> (\<exists>a e. binomial_put S K T r sigma steps ''American'' = Inr a
              \<and> binomial_put S K T r sigma steps ''European'' = Inr e \<and> e \<le> a)"
  unfolding binomial_call_def binomial_put_def
  using binomial_tree_american_ge_european [OF assms(3-6)] by simp

theorem binomial_american_ge_european_witness:
  "(0::real) < 100 \<and> (0::real) < 1 \<and> (0::real) < 1 / 5 \<and> (1::int) \<le> 100
   \<and> \<bar>1 / 50\<bar> * sqrt (1 / real_of_int 100) \<le> (1 / 5 :: real)
   \<and> (\<exists>a e. binomial_call 100 100 1 (1 / 50) (1 / 5) 100 ''American'' = Inr a
              \<and> binomial_call 100 100 1 (1 / 50) (1 / 5) 100 ''European'' = Inr e \<and> e \<le> a)
   \<and> (\<exists>a e. binomial_put 100 100 1 (1 / 50) (1 / 5) 100 ''American'' = Inr a
              \<and> binomial_put 100 100 1 (1 / 50) (1 / 5) 100 ''European'' = Inr e \<and> e \<le> a)"
proof -
  have "sqrt (1 / 100) = 1 / 10"
    using real_sqrt_abs [of "1 / 10"] by (simp add: power2_eq_square)
  then have small: "\<bar>1 / 50\<bar> * sqrt (1 / real_of_int 100) \<le> (1 / 5 :: real)"
    by simp
  show ?thesis
    using small binomial_american_ge_european [of 100 100 1 "1 / 5" 100 "1 / 50", OF _ _ _ _ _ small]
    by simp
qed

section \<open>Simulation engine: draws from the generator\<close>

lemma sum_list_map_nth:
  fixes f :: "'a \<Rightarrow> real"
  shows "sum_list (map f xs) = (\<Sum>i<length xs. f (xs ! i))"
proof -
  have "sum_list (map f xs) = (\<Sum>i = 0..<length (map f xs). map f xs ! i)"
    by (rule sum_list_sum_nth)
  also have "\<dots> = (\<Sum>i<length xs. f (xs ! i))"
    by (simp add: atLeast0LessThan)
  finally show ?thesis .
qed

lemma monte_carlo_european:
  assumes "0 \<le> simulations"
  shows "monte_carlo f S T r sigma simulations steps ''European'' g =
     (Inr (spec_mc_european (\<lambda>s. max (f s) 0) S T r sigma (stake (nat simulations) g)),
      sdrop (nat simulations) g)"
  using assms
  by (simp add: monte_carlo_def randn_def Let_def np_mean_def spec_mc_european_def
      sum_list_map_nth comp_def power2_eq_square)

lemma monte_carlo_unsupported:
  "fst (monte_carlo f S T r sigma simulations steps option_type g)
     = Inl (ValueError (''Unsupported option_type: '' @ option_type))
   \<longleftrightarrow> option_type \<noteq> ''European'' \<and> option_type \<noteq> ''Asian''"
  by (auto simp add: monte_carlo_def randn_def Let_def py_truediv_def negative_dimensions_def
      split: prod.splits)


















section \<open>Simulation engine: the European estimate and unsupported styles (claims C5, C6)\<close>

text \<open>
  Claim C5. With the vector \<open>Z\<close> of the \<open>N\<close> draws taken as an input (here: the first
  \<open>N\<close> draws the generator produces, \<open>N = simulations \<ge> 1\<close>), \<open>monte_carlo_call\<close> with
  \<open>option_type = "European"\<close> returns \<open>e^(-rT)\<close> times the mean of
  \<open>max (S_T,i - K) 0\<close> with \<open>S_T,i = S exp ((r - sigma^2 / 2) T + sigma \<surd>T Z_i)\<close>, and
  \<open>monte_carlo_put\<close> the same with \<open>max (K - S_T,i) 0\<close>, for every \<open>S\<close>, \<open>K\<close>, \<open>T\<close>,
  \<open>sigma\<close> and \<open>r\<close>. (For \<open>simulations = 0\<close> numpy's mean of an empty array is not a
  number, and the mean of the claim is not defined.)
\<close>

theorem monte_carlo_european_estimate:
  assumes "0 < simulations"
  shows "fst (monte_carlo_call S K T r sigma simulations steps ''European'' g)
           = Inr (spec_mc_european (\<lambda>s. max (s - K) 0) S T r sigma (stake (nat simulations) g))
       \<and> fst (monte_carlo_put S K T r sigma simulations steps ''European'' g)
           = Inr (spec_mc_european (\<lambda>s. max (K - s) 0) S T r sigma (stake (nat simulations) g))"
proof -
  have n: "0 \<le> simulations" using assms by simp
  show ?thesis
    unfolding monte_carlo_call_def monte_carlo_put_def monte_carlo_european [OF n]
    by simp
qed

theorem monte_carlo_european_estimate_witness:
  "(0::int) < 2
   \<and> fst (monte_carlo_call 100 100 1 (1 / 50) (1 / 5) 2 100 ''European'' (0 ## 1 ## sconst 0))
       = Inr (spec_mc_european (\<lambda>s. max (s - 100) 0) 100 1 (1 / 50) (1 / 5)
                (stake (nat 2) (0 ## 1 ## sconst 0)))
   \<and> fst (monte_carlo_put 100 100 1 (1 / 50) (1 / 5) 2 100 ''European'' (0 ## 1 ## sconst 0))
       = Inr (spec_mc_european (\<lambda>s. max (100 - s) 0) 100 1 (1 / 50) (1 / 5)
                (stake (nat 2) (0 ## 1 ## sconst 0)))"
proof -
  have n: "(0::int) < 2" by simp
  show ?thesis
    using n monte_carlo_european_estimate [OF n, of 100 100 1 "1 / 50" "1 / 5" 100 "0 ## 1 ## sconst 0"]
    by blast
qed

text \<open>
  Claim C6. \<open>monte_carlo_call\<close> and \<open>monte_carlo_put\<close> raise the error
  \<open>ValueError("Unsupported option_type: <option_type>")\<close>, whose message names the
  supplied value, if and only if \<open>option_type\<close> is neither \<open>"European"\<close> nor \<open>"Asian"\<close>,
  for every parameter combination.
\<close>

theorem monte_carlo_unsupported_style:
  "(fst (monte_carlo_call S K T r sigma simulations steps option_type g)
      = Inl (ValueError (''Unsupported option_type: '' @ option_type))
    \<longleftrightarrow> option_type \<noteq> ''European'' \<and> option_type \<noteq> ''Asian'')
 \<and> (fst (monte_carlo_put S K T r sigma simulations steps option_type g)
      = Inl (ValueError (''Unsupported option_type: '' @ option_type))
    \<longleftrightarrow> option_type \<noteq> ''European'' \<and> option_type \<noteq> ''Asian'')"
  unfolding monte_carlo_call_def monte_carlo_put_def
  using monte_carlo_unsupported by blast

theorem monte_carlo_unsupported_style_witness:
  "''Bermudan'' \<noteq> ''European'' \<and> ''Bermudan'' \<noteq> ''Asian''
   \<and> fst (monte_carlo_call 100 100 1 (1 / 50) (1 / 5) 10000 100 ''Bermudan'' (sconst 0))
       = Inl (ValueError ''Unsupported option_type: Bermudan'')
   \<and> fst (monte_carlo_put 100 100 1 (1 / 50) (1 / 5) 10000 100 ''Bermudan'' (sconst 0))
       = Inl (ValueError ''Unsupported option_type: Bermudan'')"
  using monte_carlo_unsupported_style
    [of 100 100 1 "1 / 50" "1 / 5" 10000 100 "''Bermudan''" "sconst 0"]
  by simp

section \<open>Simulation engine: dependence on the generator (claim C9)\<close>




end
